theory Spec2Isabelle
  imports Complex_Main
begin

section \<open>Text\<close>

text \<open>
  A Python \<^verbatim>\<open>str\<close> is a sequence of Unicode code points; it is modelled as a list of
  natural numbers. ASCII literals of the source are written with \<open>of_ascii\<close>.
\<close>

type_synonym str = "nat list"

definition of_ascii :: "string \<Rightarrow> str" where
  "of_ascii s = map of_char s"

text \<open>
  \<^verbatim>\<open>str.lower()\<close> and \<^verbatim>\<open>unicodedata.normalize("NFKD", _)\<close> are functions of the
  interpreter's Unicode character database, which is no part of the repository. Both act
  on whole strings (final sigma, reordering of combining marks), so they are taken as
  parameters of the model: every function below that lowercases or decomposes text
  receives the record \<open>U\<close>.
\<close>

record unicode_db =
  str_lower :: "str \<Rightarrow> str"
  normalize_NFKD :: "str \<Rightarrow> str"

subsection \<open>The steps of \<^verbatim>\<open>TextCleaner.clean_text\<close>\<close>

text \<open>\<^verbatim>\<open>text.encode("ASCII", "ignore").decode("ASCII")\<close>: code points above 127 are dropped.\<close>

definition encode_ascii_ignore :: "str \<Rightarrow> str" where
  "encode_ascii_ignore t = filter (\<lambda>c. c < 128) t"

text \<open>
  \<^verbatim>\<open>re.sub(r"(.)\1+", r"\1", text)\<close>. The scan goes from left to right. At a position the
  pattern matches when the character there is not a newline (\<^verbatim>\<open>.\<close> without DOTALL) and
  is followed by at least one copy of itself; the match takes all the copies (greedy) and
  is replaced by the one character, and the scan goes on behind the match. Where the
  pattern does not match, the character is kept and the scan moves one position.
\<close>

function sub_repeats :: "str \<Rightarrow> str" where
  "sub_repeats [] = []"
| "sub_repeats (c # cs) =
     (if c \<noteq> 10 \<and> cs \<noteq> [] \<and> hd cs = c
      then c # sub_repeats (dropWhile (\<lambda>d. d = c) cs)
      else c # sub_repeats cs)"
  by pat_completeness auto
termination
  by (relation "measure length") (auto simp: less_Suc_eq_le length_dropWhile_le)

text \<open>
  \<^verbatim>\<open>re.sub(r"[,\.\'\"~\-_\?\!\*]", "", text)\<close>: the ten characters
  \<^verbatim>\<open>, . ' " ~ - _ ? ! *\<close> are deleted.
\<close>

definition punctuation :: "nat list" where
  "punctuation = [44, 46, 39, 34, 126, 45, 95, 63, 33, 42]"

definition sub_punctuation :: "str \<Rightarrow> str" where
  "sub_punctuation t = filter (\<lambda>c. c \<notin> set punctuation) t"

text \<open>
  \<^verbatim>\<open>str.split()\<close> without argument splits at runs of whitespace and yields no empty
  word. Whitespace is what \<^verbatim>\<open>str.isspace\<close> accepts.
\<close>

definition isspace :: "nat \<Rightarrow> bool" where
  "isspace c \<longleftrightarrow>
     (9 \<le> c \<and> c \<le> 13) \<or> (28 \<le> c \<and> c \<le> 32) \<or> c = 133 \<or> c = 160 \<or> c = 5760 \<or>
     (8192 \<le> c \<and> c \<le> 8202) \<or> c = 8232 \<or> c = 8233 \<or> c = 8239 \<or> c = 8287 \<or> c = 12288"

fun split_from :: "str \<Rightarrow> str \<Rightarrow> str list" where
  "split_from w [] = (if w = [] then [] else [w])"
| "split_from w (c # cs) =
     (if isspace c then (if w = [] then split_from [] cs else w # split_from [] cs)
      else split_from (w @ [c]) cs)"

definition split :: "str \<Rightarrow> str list" where
  "split t = split_from [] t"

text \<open>\<^verbatim>\<open>sep.join(words)\<close>.\<close>

fun join :: "str \<Rightarrow> str list \<Rightarrow> str" where
  "join sep [] = []"
| "join sep [w] = w"
| "join sep (w # v # ws) = w @ sep @ join sep (v # ws)"

definition clean_text :: "unicode_db \<Rightarrow> str \<Rightarrow> str" where
  "clean_text U text =
     (let text = str_lower U text;
          text = normalize_NFKD U text;
          text = encode_ascii_ignore text;
          text = sub_repeats text;
          text = sub_punctuation text;
          text = join [32] (split text)
      in text)"

text \<open>
  An excerpt of the Unicode database, exact on text made of ASCII characters and
  U+2122 (TRADE MARK SIGN): lowercasing maps \<^verbatim>\<open>A\<close>..\<^verbatim>\<open>Z\<close> to \<^verbatim>\<open>a\<close>..\<^verbatim>\<open>z\<close> and changes no
  other of these characters; the compatibility decomposition of U+2122 is \<^verbatim>\<open>TM\<close>, and
  ASCII characters decompose to themselves.
\<close>

definition ascii_lower :: "nat \<Rightarrow> nat" where
  "ascii_lower c = (if 65 \<le> c \<and> c \<le> 90 then c + 32 else c)"

definition ucd_excerpt :: unicode_db where
  "ucd_excerpt =
     \<lparr> str_lower = map ascii_lower,
       normalize_NFKD = concat \<circ> map (\<lambda>c. if c = 8482 then [84, 77] else [c]) \<rparr>"


section \<open>\<^verbatim>\<open>SpamDetector\<close>\<close>

text \<open>
  The detector keeps the patterns, lowercased by the constructor. Its other two
  attributes carry no behaviour and have no field here: \<^verbatim>\<open>min_similarity\<close> is stored
  and never read, \<^verbatim>\<open>cleaner\<close> is a \<^verbatim>\<open>TextCleaner\<close>, which has no state.
\<close>

record SpamDetector =
  spam_patterns :: "str list"

definition SpamDetector_init :: "unicode_db \<Rightarrow> str list \<Rightarrow> SpamDetector" where
  "SpamDetector_init U patterns = \<lparr> spam_patterns = map (str_lower U) patterns \<rparr>"

text \<open>\<^verbatim>\<open>pattern in cleaned_msg\<close>: the pattern occurs at some position of the message.\<close>

definition startswith :: "str \<Rightarrow> str \<Rightarrow> bool" where
  "startswith s p \<longleftrightarrow> take (length p) s = p"

fun contains :: "str \<Rightarrow> str \<Rightarrow> bool" where
  "contains [] p \<longleftrightarrow> p = []"
| "contains (c # cs) p \<longleftrightarrow> startswith (c # cs) p \<or> contains cs p"

definition is_spam :: "unicode_db \<Rightarrow> SpamDetector \<Rightarrow> str \<Rightarrow> bool" where
  "is_spam U d message =
     (let cleaned_msg = clean_text U message
      in list_ex (\<lambda>pattern. contains cleaned_msg pattern) (spam_patterns d))"

section \<open>\<^verbatim>\<open>WordMonitorBot\<close>\<close>

subsection \<open>State, environment and effects\<close>

text \<open>
  \<^verbatim>\<open>word_responses\<close> is a \<^verbatim>\<open>dict\<close>, which iterates in insertion order: an association
  list. The type \<open>'t\<close> is the type of timestamps and durations (\<^verbatim>\<open>time.time()\<close>,
  \<^verbatim>\<open>response_delay\<close>); the code only subtracts and compares them.
\<close>

record 't bot =
  channels :: "str list"
  word_responses :: "(str \<times> str) list"
  spam_detector :: SpamDetector
  response_delay :: 't
  last_response_time :: 't
  config_path :: str

definition WordMonitorBot_init ::
  "unicode_db \<Rightarrow> str list \<Rightarrow> (str \<times> str) list \<Rightarrow> str list \<Rightarrow> 't \<Rightarrow> str \<Rightarrow> ('t::zero) bot" where
  "WordMonitorBot_init U initial_channels responses patterns delay path =
     \<lparr> channels = initial_channels,
       word_responses = responses,
       spam_detector = SpamDetector_init U patterns,
       response_delay = delay,
       last_response_time = 0,
       config_path = path \<rparr>"

text \<open>\<^verbatim>\<open>d[k] = v\<close>, \<^verbatim>\<open>del d[k]\<close> and \<^verbatim>\<open>k in d\<close> on the association list.\<close>

fun setitem :: "(str \<times> str) list \<Rightarrow> str \<Rightarrow> str \<Rightarrow> (str \<times> str) list" where
  "setitem [] k v = [(k, v)]"
| "setitem ((k', v') # d) k v = (if k' = k then (k', v) # d else (k', v') # setitem d k v)"

fun delitem :: "(str \<times> str) list \<Rightarrow> str \<Rightarrow> (str \<times> str) list" where
  "delitem [] k = []"
| "delitem ((k', v') # d) k = (if k' = k then d else (k', v') # delitem d k)"

definition has_key :: "(str \<times> str) list \<Rightarrow> str \<Rightarrow> bool" where
  "has_key d k \<longleftrightarrow> k \<in> set (map fst d)"

text \<open>The message of an event, with the attributes of its author and channel that are read.\<close>

record message =
  echo :: bool
  content :: str
  author_name :: str
  author_is_mod :: bool
  channel_name :: str

text \<open>
  What the outside world decides during one event: the clock, and whether the calls that
  leave the process raise (\<open>Some e\<close>, with \<open>e\<close> the text of the exception). An event
  sends at most once, deletes at most once and saves at most once.
\<close>

record 't env =
  time_now :: 't
  send_raises :: "str option"
  delete_raises :: "str option"
  dump_raises :: "str option"

text \<open>The dictionary that \<^verbatim>\<open>save_config\<close> dumps.\<close>

record 't config =
  cfg_channels :: "str list"
  cfg_word_responses :: "(str \<times> str) list"
  cfg_spam_patterns :: "str list"
  cfg_response_delay :: 't

text \<open>
  The calls that leave the process, one constructor for each call site; an event yields
  the list of the calls it made, in order. A call that raises is in the list as well (it
  was attempted).
\<close>

datatype 't action =
    Write_config str "'t config"
  | Ctx_send str
  | Send_timeout str
  | Delete_message
  | Send_response str
  | Print str

text \<open>
  A handler yields the bot as it leaves it, the calls it made, and the exception that
  left it uncaught, if any.
\<close>

type_synonym 't result = "'t bot \<times> 't action list \<times> str option"

definition quoted :: "str \<Rightarrow> str" where
  "quoted s = [39] @ s @ [39]"

definition save_config :: "'t bot \<Rightarrow> 't env \<Rightarrow> bool \<times> 't action list" where
  "save_config b env =
     (let config = \<lparr> cfg_channels = channels b,
                      cfg_word_responses = word_responses b,
                      cfg_spam_patterns = spam_patterns (spam_detector b),
                      cfg_response_delay = response_delay b \<rparr>
      in case dump_raises env of
           None \<Rightarrow> (True, [Write_config (config_path b) config])
         | Some e \<Rightarrow>
             (False, [Write_config (config_path b) config,
                      Print (of_ascii ''Failed to save config: '' @ e)]))"

text \<open>\<^verbatim>\<open>await ctx.send(text)\<close> as the last statement of a command.\<close>

definition ctx_send :: "'t bot \<Rightarrow> 't env \<Rightarrow> 't action list \<Rightarrow> str \<Rightarrow> 't result" where
  "ctx_send b env calls text' = (b, calls @ [Ctx_send text'], send_raises env)"

subsection \<open>The commands\<close>

text \<open>
  \<open>ctx\<close> is the context that the command framework builds for the invoking message:
  \<^verbatim>\<open>ctx.author\<close> and \<^verbatim>\<open>ctx.channel\<close> are the message's.
\<close>

definition add_response :: "unicode_db \<Rightarrow> 't bot \<Rightarrow> 't env \<Rightarrow> message \<Rightarrow> str \<Rightarrow> str \<Rightarrow> 't result" where
  "add_response U b env ctx trigger response =
     (if \<not> (author_is_mod ctx \<or> str_lower U (author_name ctx) = str_lower U (channel_name ctx))
      then (b, [], None)
      else
        let b = b\<lparr>word_responses := setitem (word_responses b) (str_lower U trigger) response\<rparr>;
            (saved, calls) = save_config b env
        in if saved
           then ctx_send b env calls (of_ascii ''Added response for '' @ quoted trigger)
           else ctx_send b env calls (of_ascii ''Failed to save configuration''))"

definition delete_response :: "unicode_db \<Rightarrow> 't bot \<Rightarrow> 't env \<Rightarrow> message \<Rightarrow> str \<Rightarrow> 't result" where
  "delete_response U b env ctx trigger =
     (if \<not> (author_is_mod ctx \<or> str_lower U (author_name ctx) = str_lower U (channel_name ctx))
      then (b, [], None)
      else if has_key (word_responses b) (str_lower U trigger) then
        let b = b\<lparr>word_responses := delitem (word_responses b) (str_lower U trigger)\<rparr>;
            (saved, calls) = save_config b env
        in if saved
           then ctx_send b env calls (of_ascii ''Deleted response for '' @ quoted trigger)
           else ctx_send b env calls (of_ascii ''Failed to save configuration'')
      else ctx_send b env [] (of_ascii ''No response found for '' @ quoted trigger))"

definition list_responses :: "unicode_db \<Rightarrow> 't bot \<Rightarrow> 't env \<Rightarrow> message \<Rightarrow> 't result" where
  "list_responses U b env ctx =
     (if \<not> (author_is_mod ctx \<or> str_lower U (author_name ctx) = str_lower U (channel_name ctx))
      then (b, [], None)
      else if word_responses b = [] then ctx_send b env [] (of_ascii ''No responses configured'')
      else
        let response_list =
              join (of_ascii '', '')
                (map (\<lambda>(trigger, response). trigger @ of_ascii '': '' @ response) (word_responses b))
        in ctx_send b env [] (of_ascii ''Current responses: '' @ response_list))"

definition add_spam_pattern :: "unicode_db \<Rightarrow> 't bot \<Rightarrow> 't env \<Rightarrow> message \<Rightarrow> str \<Rightarrow> 't result" where
  "add_spam_pattern U b env ctx pattern =
     (if \<not> (author_is_mod ctx \<or> str_lower U (author_name ctx) = str_lower U (channel_name ctx))
      then (b, [], None)
      else
        let b = b\<lparr>spam_detector :=
                    (spam_detector b)\<lparr>spam_patterns :=
                       spam_patterns (spam_detector b) @ [str_lower U pattern]\<rparr>\<rparr>;
            (saved, calls) = save_config b env
        in if saved
           then ctx_send b env calls (of_ascii ''Added spam pattern '' @ quoted pattern)
           else ctx_send b env calls (of_ascii ''Failed to save configuration''))"

definition delete_spam_pattern :: "unicode_db \<Rightarrow> 't bot \<Rightarrow> 't env \<Rightarrow> message \<Rightarrow> str \<Rightarrow> 't result" where
  "delete_spam_pattern U b env ctx pattern =
     (if \<not> (author_is_mod ctx \<or> str_lower U (author_name ctx) = str_lower U (channel_name ctx))
      then (b, [], None)
      else
        let pattern = str_lower U pattern in
        if pattern \<in> set (spam_patterns (spam_detector b)) then
          let b = b\<lparr>spam_detector :=
                      (spam_detector b)\<lparr>spam_patterns :=
                         remove1 pattern (spam_patterns (spam_detector b))\<rparr>\<rparr>;
              (saved, calls) = save_config b env
          in if saved
             then ctx_send b env calls (of_ascii ''Deleted spam pattern '' @ quoted pattern)
             else ctx_send b env calls (of_ascii ''Failed to save configuration'')
        else ctx_send b env [] (of_ascii ''Spam pattern '' @ quoted pattern @ of_ascii '' not found''))"

definition list_spam_patterns :: "unicode_db \<Rightarrow> 't bot \<Rightarrow> 't env \<Rightarrow> message \<Rightarrow> 't result" where
  "list_spam_patterns U b env ctx =
     (if \<not> (author_is_mod ctx \<or> str_lower U (author_name ctx) = str_lower U (channel_name ctx))
      then (b, [], None)
      else
        let patterns = join (of_ascii '', '') (spam_patterns (spam_detector b))
        in ctx_send b env [] (of_ascii ''Current spam patterns: '' @ patterns))"

text \<open>
  \<^verbatim>\<open>handle_commands\<close> is inherited from the command framework, which parses the text of
  the message and calls the command registered under the name it finds, with the
  arguments it finds. The parser is a parameter; \<open>None\<close> stands for a text that invokes
  no registered command, on which nothing of this bot runs.
\<close>

datatype command =
    Addresponse str str
  | Delresponse str
  | Responses
  | Addspam str
  | Delspam str
  | Spampatterns

fun invoke :: "unicode_db \<Rightarrow> 't bot \<Rightarrow> 't env \<Rightarrow> message \<Rightarrow> command \<Rightarrow> 't result" where
  "invoke U b env ctx (Addresponse trigger response) = add_response U b env ctx trigger response"
| "invoke U b env ctx (Delresponse trigger) = delete_response U b env ctx trigger"
| "invoke U b env ctx Responses = list_responses U b env ctx"
| "invoke U b env ctx (Addspam pattern) = add_spam_pattern U b env ctx pattern"
| "invoke U b env ctx (Delspam pattern) = delete_spam_pattern U b env ctx pattern"
| "invoke U b env ctx Spampatterns = list_spam_patterns U b env ctx"

definition handle_commands ::
  "(str \<Rightarrow> command option) \<Rightarrow> unicode_db \<Rightarrow> 't bot \<Rightarrow> 't env \<Rightarrow> message \<Rightarrow> 't result" where
  "handle_commands parse U b env message =
     (case parse (content message) of
        None \<Rightarrow> (b, [], None)
      | Some cmd \<Rightarrow> invoke U b env message cmd)"

subsection \<open>\<^verbatim>\<open>event_message\<close>\<close>

text \<open>
  The loop over \<^verbatim>\<open>self.word_responses.items()\<close>: the first trigger whose cleaned form is
  one of the words sends its response; the time is stored after the send has returned.
\<close>

fun respond ::
  "unicode_db \<Rightarrow> 't bot \<Rightarrow> 't env \<Rightarrow> 't \<Rightarrow> str list \<Rightarrow> (str \<times> str) list \<Rightarrow> 't result" where
  "respond U b env current_time words_in_message [] = (b, [], None)"
| "respond U b env current_time words_in_message ((trigger_word, response) # items) =
     (let cleaned_trigger = clean_text U trigger_word in
      if cleaned_trigger \<in> set words_in_message then
        (case send_raises env of
           Some e \<Rightarrow> (b, [Send_response response], Some e)
         | None \<Rightarrow> (b\<lparr>last_response_time := current_time\<rparr>, [Send_response response], None))
      else respond U b env current_time words_in_message items)"

definition event_message ::
  "(str \<Rightarrow> command option) \<Rightarrow> unicode_db \<Rightarrow> ('t::{minus,ord}) bot \<Rightarrow> 't env \<Rightarrow> message \<Rightarrow> 't result" where
  "event_message parse U b env message =
     (if echo message then (b, [], None)
      else if startswith (content message) (of_ascii ''!'') then
        handle_commands parse U b env message
      else if is_spam U (spam_detector b) (content message) then
        (let is_mod = author_is_mod message;
             is_broadcaster =
               (str_lower U (author_name message) = str_lower U (channel_name message));
             timeout = Send_timeout (of_ascii ''/timeout '' @ author_name message @ of_ascii '' 3'')
         in if \<not> (is_mod \<or> is_broadcaster) then
              (case send_raises env of
                 Some e \<Rightarrow>
                   (b, [timeout, Print (of_ascii ''Failed to timeout user: '' @ e)], None)
               | None \<Rightarrow>
                   (case delete_raises env of
                      Some e \<Rightarrow>
                        (b, [timeout, Delete_message,
                             Print (of_ascii ''Failed to timeout user: '' @ e)], None)
                    | None \<Rightarrow>
                        (b, [timeout, Delete_message,
                             Print (of_ascii ''Timeout user '' @ author_name message
                                    @ of_ascii '' for spam'')], None)))
            else
              (b, [Print (of_ascii ''Skipping timeout for privileged user ''
                          @ author_name message)], None))
      else
        (let current_time = time_now env in
         if current_time - last_response_time b < response_delay b then (b, [], None)
         else
           let cleaned_content = clean_text U (content message);
               words_in_message = split cleaned_content
           in respond U b env current_time words_in_message (word_responses b)))"

text \<open>A run of the bot over the events of a session, in order; the calls are collected.\<close>

fun run ::
  "(str \<Rightarrow> command option) \<Rightarrow> unicode_db \<Rightarrow> ('t::{minus,ord}) bot \<Rightarrow> ('t env \<times> message) list
     \<Rightarrow> 't bot \<times> 't action list" where
  "run parse U b [] = (b, [])"
| "run parse U b ((env, message) # events) =
     (case event_message parse U b env message of
        (b', calls, _) \<Rightarrow>
          (case run parse U b' events of (b'', calls') \<Rightarrow> (b'', calls @ calls')))"


section \<open>Properties of text, in the words of the specification\<close>

text \<open>
  The specification calls a string normalized when it is lowercase-only and ASCII-only,
  has no run of two or more identical consecutive characters, has none of the ten
  punctuation characters, has its whitespace collapsed to single spaces, and has no
  leading or trailing whitespace. The text is ASCII, so lowercase-only says that none of
  \<^verbatim>\<open>A\<close>..\<^verbatim>\<open>Z\<close> occurs.
\<close>

definition lowercase_only :: "str \<Rightarrow> bool" where
  "lowercase_only s \<longleftrightarrow> (\<forall>c\<in>set s. \<not> (65 \<le> c \<and> c \<le> 90))"

definition ascii_only :: "str \<Rightarrow> bool" where
  "ascii_only s \<longleftrightarrow> (\<forall>c\<in>set s. c < 128)"

definition no_punctuation :: "str \<Rightarrow> bool" where
  "no_punctuation s \<longleftrightarrow> (\<forall>c\<in>set s. c \<notin> set punctuation)"

definition whitespace_collapsed :: "str \<Rightarrow> bool" where
  "whitespace_collapsed s \<longleftrightarrow>
     (\<forall>c\<in>set s. isspace c \<longrightarrow> c = 32) \<and> successively (\<lambda>a b. \<not> (a = 32 \<and> b = 32)) s"

definition trimmed :: "str \<Rightarrow> bool" where
  "trimmed s \<longleftrightarrow> s = [] \<or> (\<not> isspace (hd s) \<and> \<not> isspace (last s))"

definition NormalizedText :: "str \<Rightarrow> bool" where
  "NormalizedText s \<longleftrightarrow>
     lowercase_only s \<and> ascii_only s \<and> distinct_adj s \<and> no_punctuation s \<and>
     whitespace_collapsed s \<and> trimmed s"

text \<open>
  What is known of the Unicode database on ASCII text: lowercasing acts character by
  character, on \<^verbatim>\<open>A\<close>..\<^verbatim>\<open>Z\<close> only, and the decomposition changes nothing.
\<close>

definition ascii_exact :: "unicode_db \<Rightarrow> bool" where
  "ascii_exact U \<longleftrightarrow>
     (\<forall>s. ascii_only s \<longrightarrow> str_lower U s = map ascii_lower s \<and> normalize_NFKD U s = s)"

section \<open>A small session\<close>

text \<open>
  The bot of the examples: one channel, the triggers \<^verbatim>\<open>hello\<close> and \<^verbatim>\<open>hi\<close>, the default
  spam pattern \<^verbatim>\<open>casino\<close>, a delay of three seconds. \<open>viewer_says\<close> is a message of
  a viewer who is neither moderator nor broadcaster, \<open>mod_says\<close> one of a moderator.
\<close>

definition demo_bot :: "real bot" where
  "demo_bot =
     WordMonitorBot_init ucd_excerpt [of_ascii ''chan'']
       [(of_ascii ''hello'', of_ascii ''hi''), (of_ascii ''hi'', of_ascii ''hello!'')]
       [of_ascii ''casino''] 3 (of_ascii ''config.yml'')"

definition demo_env :: "real env" where
  "demo_env = \<lparr> time_now = 5, send_raises = None, delete_raises = None, dump_raises = None \<rparr>"

definition viewer_says :: "str \<Rightarrow> message" where
  "viewer_says s =
     \<lparr> echo = False, content = s, author_name = of_ascii ''Bob'', author_is_mod = False,
       channel_name = of_ascii ''chan'' \<rparr>"

definition mod_says :: "str \<Rightarrow> message" where
  "mod_says s =
     \<lparr> echo = False, content = s, author_name = of_ascii ''Ann'', author_is_mod = True,
       channel_name = of_ascii ''chan'' \<rparr>"

section \<open>Evaluation\<close>

lemmas text_defs =
  clean_text_def ucd_excerpt_def of_ascii_def encode_ascii_ignore_def sub_punctuation_def
  punctuation_def split_def isspace_def ascii_lower_def startswith_def is_spam_def

lemmas demo_defs =
  demo_bot_def demo_env_def viewer_says_def mod_says_def WordMonitorBot_init_def
  SpamDetector_init_def

lemmas command_defs =
  add_response_def delete_response_def list_responses_def add_spam_pattern_def
  delete_spam_pattern_def list_spam_patterns_def

lemmas run_defs = event_message_def demo_defs text_defs

section \<open>The cleaned text\<close>

subsection \<open>join and split\<close>

lemma join_Cons: "vs \<noteq> [] \<Longrightarrow> join sep (w # vs) = w @ sep @ join sep vs"
  by (cases vs) simp_all

lemma set_join: "set (join sep ws) \<subseteq> set sep \<union> \<Union> (set ` set ws)"
  by (induction sep ws rule: join.induct) auto

lemma split_from_chars: "v \<in> set (split_from w t) \<Longrightarrow> set v \<subseteq> set w \<union> set t"
proof (induction t arbitrary: w)
  case Nil
  then show ?case by (simp split: if_splits)
next
  case (Cons c cs)
  show ?case
  proof (cases "isspace c")
    case True
    with Cons.prems have "v = w \<or> v \<in> set (split_from [] cs)"
      by (simp split: if_splits)
    then show ?thesis using Cons.IH [of "[]"] by auto
  next
    case False
    with Cons.prems have "v \<in> set (split_from (w @ [c]) cs)" by simp
    then show ?thesis using Cons.IH [of "w @ [c]"] by auto
  qed
qed

lemma split_from_words:
  "v \<in> set (split_from w t) \<Longrightarrow> \<forall>c\<in>set w. \<not> isspace c \<Longrightarrow> v \<noteq> [] \<and> (\<forall>c\<in>set v. \<not> isspace c)"
proof (induction t arbitrary: w)
  case Nil
  then show ?case by (simp split: if_splits)
next
  case (Cons c cs)
  show ?case
  proof (cases "isspace c")
    case True
    with Cons.prems(1) have "(w \<noteq> [] \<and> v = w) \<or> v \<in> set (split_from [] cs)"
      by (simp split: if_splits)
    then show ?thesis using Cons.IH [of "[]"] Cons.prems(2) by auto
  next
    case False
    with Cons.prems(1) have "v \<in> set (split_from (w @ [c]) cs)" by simp
    then show ?thesis using Cons.IH [of "w @ [c]"] Cons.prems(2) False by auto
  qed
qed

lemma split_from_nonempty: "w \<noteq> [] \<or> (\<exists>c\<in>set t. \<not> isspace c) \<Longrightarrow> split_from w t \<noteq> []"
  by (induction t arbitrary: w) auto

lemma isspace_32: "isspace 32"
  by (simp add: isspace_def)

lemma successively_no_space:
  "32 \<notin> set w \<Longrightarrow> successively (\<lambda>a b. \<not> (a = 32 \<and> b = (32::nat))) w"
  by (induction w rule: induct_list012) auto

lemma join_words:
  assumes "ws \<noteq> []" and "\<forall>v\<in>set ws. v \<noteq> [] \<and> (\<forall>c\<in>set v. \<not> isspace c)"
  shows "join [32] ws \<noteq> [] \<and> hd (join [32] ws) = hd (hd ws) \<and>
         \<not> isspace (last (join [32] ws)) \<and>
         successively (\<lambda>a b. \<not> (a = 32 \<and> b = 32)) (join [32] ws)"
  using assms
proof (induction ws rule: induct_list012)
  case 1
  then show ?case by simp
next
  case (2 w)
  then have "32 \<notin> set w" using isspace_32 by auto
  with 2 show ?case using successively_no_space [of w] by simp
next
  case (3 w v ws)
  let ?rest = "join [32] (v # ws)"
  from 3 have IH: "?rest \<noteq> []" "hd ?rest = hd v" "\<not> isspace (last ?rest)"
    "successively (\<lambda>a b. \<not> (a = 32 \<and> b = 32)) ?rest"
    by simp_all
  from 3 have w: "w \<noteq> []" "\<forall>c\<in>set w. \<not> isspace c" and v: "v \<noteq> []" "\<not> isspace (hd v)"
    by simp_all
  from w have w32: "32 \<notin> set w" using isspace_32 by auto
  from w32 last_in_set [OF w(1)] have l32: "last w \<noteq> 32" by metis
  from v have v32: "hd v \<noteq> 32" using isspace_32 by auto
  have eq: "join [32] (w # v # ws) = w @ 32 # ?rest" by simp
  have "successively (\<lambda>a b. \<not> (a = 32 \<and> b = 32)) (32 # ?rest)"
    using IH v32 by (cases ?rest) auto
  then have "successively (\<lambda>a b. \<not> (a = 32 \<and> b = 32)) (w @ 32 # ?rest)"
    using w32 l32 w successively_no_space [of w] by (simp add: successively_append_iff)
  then show ?case
    using w IH unfolding eq by simp
qed

lemma whitespace_collapsed_join:
  assumes "\<forall>v\<in>set ws. v \<noteq> [] \<and> (\<forall>c\<in>set v. \<not> isspace c)"
  shows "whitespace_collapsed (join [32] ws) \<and> trimmed (join [32] ws)"
proof (cases "ws = []")
  case True
  then show ?thesis by (simp add: whitespace_collapsed_def trimmed_def)
next
  case False
  from join_words [OF False assms]
  have j: "join [32] ws \<noteq> []" "hd (join [32] ws) = hd (hd ws)"
    "\<not> isspace (last (join [32] ws))"
    "successively (\<lambda>a b. \<not> (a = 32 \<and> b = 32)) (join [32] ws)"
    by simp_all
  from False assms have "\<not> isspace (hd (hd ws))"
    by (cases ws) auto
  moreover have "\<forall>c\<in>set (join [32] ws). isspace c \<longrightarrow> c = 32"
    using set_join [of "[32]" ws] assms by auto
  ultimately show ?thesis
    using j by (simp add: whitespace_collapsed_def trimmed_def)
qed

lemma join_split_from:
  assumes "\<forall>c\<in>set s. isspace c \<longrightarrow> c = 32"
      and "successively (\<lambda>a b. \<not> (a = 32 \<and> b = 32)) s"
      and "s \<noteq> [] \<longrightarrow> \<not> isspace (last s)"
      and "w = [] \<longrightarrow> s = [] \<or> \<not> isspace (hd s)"
  shows "join [32] (split_from w s) = w @ s"
  using assms
proof (induction s arbitrary: w)
  case Nil
  then show ?case by simp
next
  case (Cons c cs)
  note A = Cons.prems(1) and B = Cons.prems(2) and C = Cons.prems(3) and D = Cons.prems(4)
  from A have A': "\<forall>c\<in>set cs. isspace c \<longrightarrow> c = 32" by simp
  show ?case
  proof (cases "isspace c")
    case True
    with A have c: "c = 32" by simp
    from D True have w: "w \<noteq> []" by auto
    from C True have "cs \<noteq> []" by auto
    then obtain d ds where cs: "cs = d # ds" by (cases cs) auto
    from B c cs have d32: "d \<noteq> 32" and B': "successively (\<lambda>a b. \<not> (a = 32 \<and> b = 32)) cs"
      by simp_all
    from A d32 cs have d: "\<not> isspace d" by auto
    from C cs have C': "cs \<noteq> [] \<longrightarrow> \<not> isspace (last cs)" by simp
    from d cs have D': "[] = [] \<longrightarrow> cs = [] \<or> \<not> isspace (hd cs)" by simp
    have "join [32] (split_from [] cs) = [] @ cs"
      using A' B' C' D' by (rule Cons.IH)
    moreover have "split_from [] cs \<noteq> []"
      using d cs by (intro split_from_nonempty) auto
    ultimately show ?thesis
      using True w c by (simp add: join_Cons)
  next
    case False
    from B have B': "successively (\<lambda>a b. \<not> (a = 32 \<and> b = 32)) cs"
      by (cases cs) simp_all
    from C have C': "cs \<noteq> [] \<longrightarrow> \<not> isspace (last cs)" by auto
    have D': "w @ [c] = [] \<longrightarrow> cs = [] \<or> \<not> isspace (hd cs)" by simp
    have "join [32] (split_from (w @ [c]) cs) = (w @ [c]) @ cs"
      using A' B' C' D' by (rule Cons.IH)
    with False show ?thesis by simp
  qed
qed

lemma join_split_id:
  assumes "whitespace_collapsed s" and "trimmed s"
  shows "join [32] (split s) = s"
proof -
  from assms(1) have "\<forall>c\<in>set s. isspace c \<longrightarrow> c = 32"
    and "successively (\<lambda>a b. \<not> (a = 32 \<and> b = 32)) s"
    by (simp_all add: whitespace_collapsed_def)
  moreover from assms(2) have "s \<noteq> [] \<longrightarrow> \<not> isspace (last s)"
    and "[] = [] \<longrightarrow> s = [] \<or> \<not> isspace (hd s)"
    by (auto simp: trimmed_def)
  ultimately have "join [32] (split_from [] s) = [] @ s"
    by (rule join_split_from)
  then show ?thesis by (simp add: split_def)
qed

subsection \<open>The collapse of repeats\<close>

lemma sub_repeats_single: "sub_repeats [c] = [c]"
  by simp

lemma dropWhile_no_head: "r = [] \<or> hd r \<noteq> c \<Longrightarrow> dropWhile (\<lambda>d. d = c) r = r"
  by (cases r) auto

lemma sub_repeats_Cons_Cons:
  "sub_repeats (c # d # r) =
     (if c = d \<and> c \<noteq> 10 then sub_repeats (d # r) else c # sub_repeats (d # r))"
  by (auto simp: dropWhile_no_head)

lemmas sub_repeats_eqs = sub_repeats.simps(1) sub_repeats_single sub_repeats_Cons_Cons

lemma sub_repeats_Cons: "\<exists>r'. sub_repeats (c # r) = c # r'"
  by simp

lemma set_sub_repeats: "set (sub_repeats t) = set t"
  by (induction t rule: induct_list012)
     (auto simp: sub_repeats_eqs simp del: sub_repeats.simps(2))

lemma hd_sub_repeats: "hd (sub_repeats t) = hd t"
  by (cases t) simp_all

lemma sub_repeats_Nil_iff: "sub_repeats t = [] \<longleftrightarrow> t = []"
  by (cases t) simp_all

lemma last_sub_repeats: "last (sub_repeats t) = last t"
  by (induction t rule: induct_list012)
     (auto simp: sub_repeats_eqs sub_repeats_Nil_iff simp del: sub_repeats.simps(2))

lemma distinct_adj_sub_repeats: "10 \<notin> set t \<Longrightarrow> distinct_adj (sub_repeats t)"
proof (induction t rule: induct_list012)
  case (3 c d r)
  obtain r' where r': "sub_repeats (d # r) = d # r'"
    using sub_repeats_Cons by blast
  with 3 show ?case
    by (auto simp: sub_repeats_eqs simp del: sub_repeats.simps(2))
qed simp_all

lemma sub_repeats_id: "distinct_adj t \<Longrightarrow> sub_repeats t = t"
  by (induction t rule: induct_list012)
     (auto simp: sub_repeats_eqs simp del: sub_repeats.simps(2))

subsection \<open>The cleaned text\<close>

lemma clean_text_chars:
  "set (clean_text U x) \<subseteq>
     insert 32 {c \<in> set (normalize_NFKD U (str_lower U x)). c < 128 \<and> c \<notin> set punctuation}"
proof -
  let ?t = "sub_punctuation (sub_repeats (encode_ascii_ignore (normalize_NFKD U (str_lower U x))))"
  have "set (clean_text U x) \<subseteq> insert 32 (\<Union> (set ` set (split ?t)))"
    using set_join [of "[32]" "split ?t"] by (simp add: clean_text_def)
  moreover have "\<Union> (set ` set (split ?t)) \<subseteq> set ?t"
    using split_from_chars [of _ "[]" ?t] by (auto simp: split_def)
  moreover have "set ?t \<subseteq> {c \<in> set (normalize_NFKD U (str_lower U x)). c < 128 \<and> c \<notin> set punctuation}"
    by (auto simp: sub_punctuation_def set_sub_repeats encode_ascii_ignore_def)
  ultimately show ?thesis by blast
qed

lemma clean_text_ascii: "ascii_only (clean_text U x)"
  using clean_text_chars [of U x] by (auto simp: ascii_only_def)

lemma clean_text_no_punctuation: "no_punctuation (clean_text U x)"
  using clean_text_chars [of U x] by (auto simp: no_punctuation_def punctuation_def)

lemma clean_text_whitespace: "whitespace_collapsed (clean_text U x) \<and> trimmed (clean_text U x)"
  unfolding clean_text_def Let_def split_def
  by (rule whitespace_collapsed_join) (use split_from_words in auto)

lemma clean_text_lowercase:
  "lowercase_only (normalize_NFKD U (str_lower U x)) \<Longrightarrow> lowercase_only (clean_text U x)"
  using clean_text_chars [of U x] by (auto simp: lowercase_only_def)

lemma lowercase_only_ascii_lower: "lowercase_only (map ascii_lower s)"
  by (auto simp: lowercase_only_def ascii_lower_def)

lemma ascii_only_ascii_lower: "ascii_only s \<Longrightarrow> ascii_only (map ascii_lower s)"
  by (auto simp: ascii_only_def ascii_lower_def)

lemma ascii_exact_ucd_excerpt: "ascii_exact ucd_excerpt"
proof -
  have "ascii_only s \<Longrightarrow> concat (map (\<lambda>c. if c = 8482 then [84, 77] else [c]) s) = s" for s
    by (induction s) (auto simp: ascii_only_def)
  then show ?thesis
    by (simp add: ascii_exact_def ucd_excerpt_def)
qed

lemma isspace_ascii_lower: "isspace (ascii_lower c) = isspace c"
  by (simp add: ascii_lower_def isspace_def)

lemma ascii_lower_32: "ascii_lower c = 32 \<longleftrightarrow> c = 32"
  by (simp add: ascii_lower_def)

lemma isspace_10: "isspace 10"
  by (simp add: isspace_def)

lemma ascii_lower_punctuation: "ascii_lower c \<in> set punctuation \<longleftrightarrow> c \<in> set punctuation"
  by (simp add: ascii_lower_def punctuation_def)

lemma no_newline: "\<forall>c\<in>set s. isspace c \<longrightarrow> c = 32 \<Longrightarrow> 10 \<notin> set (map ascii_lower s)"
proof
  assume a: "\<forall>c\<in>set s. isspace c \<longrightarrow> c = 32" and "10 \<in> set (map ascii_lower s)"
  then obtain c where c: "c \<in> set s" "ascii_lower c = 10" by auto
  then have "isspace c" using isspace_10 isspace_ascii_lower [of c] by simp
  with a c have "c = 32" by simp
  with c show False by (simp add: ascii_lower_def)
qed

lemma successively_tl: "successively P (x # xs) \<Longrightarrow> successively P xs"
  by (cases xs) simp_all

lemma sub_repeats_runs: "successively (\<lambda>a b. a \<noteq> b \<or> a = 10) (sub_repeats t)"
proof (induction t rule: induct_list012)
  case (3 c d r)
  obtain r' where r': "sub_repeats (d # r) = d # r'"
    using sub_repeats_Cons by blast
  with 3 show ?case
    by (auto simp: sub_repeats_eqs simp del: sub_repeats.simps(2))
qed simp_all

lemma split_from_successively:
  "successively Q (w @ t) \<Longrightarrow> v \<in> set (split_from w t) \<Longrightarrow> successively Q v"
proof (induction t arbitrary: w)
  case Nil
  then show ?case by (simp split: if_splits)
next
  case (Cons c cs)
  from Cons.prems(1) have w: "successively Q w" and ccs: "successively Q (c # cs)"
    by (simp_all add: successively_append_iff)
  from ccs have cs: "successively Q ([] @ cs)"
    using successively_tl by simp
  show ?case
  proof (cases "isspace c")
    case True
    with Cons.prems(2) have "v = w \<or> v \<in> set (split_from [] cs)"
      by (simp split: if_splits)
    then show ?thesis using w Cons.IH [OF cs] by auto
  next
    case False
    with Cons.prems(2) have "v \<in> set (split_from (w @ [c]) cs)" by simp
    moreover from Cons.prems(1) have "successively Q ((w @ [c]) @ cs)" by simp
    ultimately show ?thesis by (rule Cons.IH [rotated])
  qed
qed

lemma distinct_adj_join:
  assumes "ws \<noteq> []"
      and "\<forall>v\<in>set ws. v \<noteq> [] \<and> (\<forall>c\<in>set v. \<not> isspace c) \<and> distinct_adj v"
  shows "distinct_adj (join [32] ws)"
  using assms
proof (induction ws rule: induct_list012)
  case 1
  then show ?case by simp
next
  case (2 w)
  then show ?case by simp
next
  case (3 w v ws)
  let ?rest = "join [32] (v # ws)"
  from 3 have IH: "distinct_adj ?rest" by simp
  from 3 have ok: "\<forall>u\<in>set (v # ws). u \<noteq> [] \<and> (\<forall>c\<in>set u. \<not> isspace c)" by simp
  from join_words [OF _ ok] have rest: "?rest \<noteq> []" "hd ?rest = hd v" by simp_all
  from 3 have w: "w \<noteq> []" "\<forall>c\<in>set w. \<not> isspace c" "distinct_adj w"
    and v: "v \<noteq> []" "\<not> isspace (hd v)"
    by simp_all
  from w have w32: "32 \<notin> set w" using isspace_32 by auto
  from w32 last_in_set [OF w(1)] have l32: "last w \<noteq> 32" by metis
  from v have v32: "hd v \<noteq> 32" using isspace_32 by auto
  have "distinct_adj (32 # ?rest)"
    using IH rest v32 by (cases ?rest) auto
  then have "distinct_adj (w @ 32 # ?rest)"
    using w l32 by (simp add: distinct_adj_append_iff)
  then show ?case by simp
qed

lemma clean_text_no_runs:
  assumes "no_punctuation (normalize_NFKD U (str_lower U x))"
  shows "distinct_adj (clean_text U x)"
proof -
  let ?t3 = "encode_ascii_ignore (normalize_NFKD U (str_lower U x))"
  let ?t4 = "sub_repeats ?t3"
  have "\<forall>c\<in>set ?t4. c \<notin> set punctuation"
    using assms by (auto simp: set_sub_repeats encode_ascii_ignore_def no_punctuation_def)
  then have pun: "sub_punctuation ?t4 = ?t4"
    by (simp add: sub_punctuation_def)
  have eq: "clean_text U x = join [32] (split_from [] ?t4)"
    by (simp add: clean_text_def split_def pun)
  have runs: "successively (\<lambda>a b. a \<noteq> b \<or> isspace a) ([] @ ?t4)"
    using sub_repeats_runs [of ?t3] isspace_10
    by (auto elim: successively_mono)
  have words: "\<forall>v\<in>set (split_from [] ?t4).
      v \<noteq> [] \<and> (\<forall>c\<in>set v. \<not> isspace c) \<and> distinct_adj v"
  proof
    fix v assume v: "v \<in> set (split_from [] ?t4)"
    from split_from_words [OF v] have sp: "v \<noteq> []" "\<forall>c\<in>set v. \<not> isspace c" by simp_all
    from split_from_successively [OF runs v]
    have S: "successively (\<lambda>a b. a \<noteq> b \<or> isspace a) v" .
    have "distinct_adj v"
      unfolding distinct_adj_def
    proof (rule successively_mono [OF S])
      fix a b assume "a \<in> set v" and "a \<noteq> b \<or> isspace a"
      with sp(2) show "a \<noteq> b" by auto
    qed
    with sp show "v \<noteq> [] \<and> (\<forall>c\<in>set v. \<not> isspace c) \<and> distinct_adj v" by simp
  qed
  show ?thesis
  proof (cases "split_from [] ?t4 = []")
    case True
    then show ?thesis by (simp add: eq)
  next
    case False
    from distinct_adj_join [OF False words] show ?thesis by (simp add: eq)
  qed
qed

lemma no_punctuation_ascii_lower: "no_punctuation s \<Longrightarrow> no_punctuation (map ascii_lower s)"
  by (simp add: no_punctuation_def ascii_lower_punctuation)

subsection \<open>The form of the cleaned text\<close>

text \<open>
  C3, as amended. For every input and whatever the Unicode tables are, the output of
  \<^verbatim>\<open>clean_text\<close> is ASCII-only, has none of the ten punctuation characters, has no
  whitespace but single spaces between words, and has no leading or trailing whitespace.
  It has no capital letter when the decomposed lowercased input has none, and no two
  equal characters side by side when the decomposed lowercased input has none of the ten
  punctuation characters. So for every ASCII input without these characters the output is
  normalized in the full sense of the specification, and for every ASCII input it is
  lowercase-only.
\<close>

theorem clean_text_normal_form:
  "ascii_only (clean_text U x) \<and> no_punctuation (clean_text U x) \<and>
   whitespace_collapsed (clean_text U x) \<and> trimmed (clean_text U x) \<and>
   (lowercase_only (normalize_NFKD U (str_lower U x)) \<longrightarrow> lowercase_only (clean_text U x)) \<and>
   (no_punctuation (normalize_NFKD U (str_lower U x)) \<longrightarrow> distinct_adj (clean_text U x)) \<and>
   (ascii_exact U \<and> ascii_only x \<longrightarrow> lowercase_only (clean_text U x)) \<and>
   (ascii_exact U \<and> ascii_only x \<and> no_punctuation x \<longrightarrow> NormalizedText (clean_text U x))"
proof -
  have nfl: "normalize_NFKD U (str_lower U x) = map ascii_lower x"
    if "ascii_exact U" "ascii_only x"
  proof -
    from that have "str_lower U x = map ascii_lower x"
      by (simp add: ascii_exact_def)
    moreover from that have "normalize_NFKD U (map ascii_lower x) = map ascii_lower x"
      using ascii_only_ascii_lower by (simp add: ascii_exact_def)
    ultimately show ?thesis by simp
  qed
  have low: "lowercase_only (clean_text U x)" if "ascii_exact U" "ascii_only x"
  proof -
    have "lowercase_only (normalize_NFKD U (str_lower U x))"
      unfolding nfl [OF that] by (rule lowercase_only_ascii_lower)
    then show ?thesis by (rule clean_text_lowercase)
  qed
  have runs: "distinct_adj (clean_text U x)" if "ascii_exact U" "ascii_only x" "no_punctuation x"
  proof -
    have "no_punctuation (normalize_NFKD U (str_lower U x))"
      unfolding nfl [OF that(1,2)] using that(3) by (rule no_punctuation_ascii_lower)
    then show ?thesis by (rule clean_text_no_runs)
  qed
  have "NormalizedText (clean_text U x)" if "ascii_exact U" "ascii_only x" "no_punctuation x"
    using low [OF that(1,2)] runs [OF that] clean_text_ascii clean_text_no_punctuation
      clean_text_whitespace
    by (simp add: NormalizedText_def)
  then show ?thesis
    using clean_text_ascii clean_text_no_punctuation clean_text_whitespace clean_text_lowercase
      clean_text_no_runs low
    by blast
qed

theorem clean_text_normal_form_witness:
  "ascii_exact ucd_excerpt \<and> ascii_only (of_ascii ''  Soooo   COOOOL '') \<and>
   no_punctuation (of_ascii ''  Soooo   COOOOL '') \<and>
   lowercase_only (normalize_NFKD ucd_excerpt (str_lower ucd_excerpt (of_ascii ''  Soooo   COOOOL ''))) \<and>
   no_punctuation (normalize_NFKD ucd_excerpt (str_lower ucd_excerpt (of_ascii ''  Soooo   COOOOL ''))) \<and>
   NormalizedText (clean_text ucd_excerpt (of_ascii ''  Soooo   COOOOL '')) \<and>
   clean_text ucd_excerpt (of_ascii ''  Soooo   COOOOL '') = of_ascii ''so col'' \<and>
   ascii_only (clean_text ucd_excerpt (of_ascii ''a-a'' @ [8482])) \<and>
   no_punctuation (clean_text ucd_excerpt (of_ascii ''a-a'' @ [8482])) \<and>
   whitespace_collapsed (clean_text ucd_excerpt (of_ascii ''a-a'' @ [8482])) \<and>
   trimmed (clean_text ucd_excerpt (of_ascii ''a-a'' @ [8482]))"
proof -
  let ?x = "of_ascii ''  Soooo   COOOOL ''"
  have pre: "ascii_only ?x" "no_punctuation ?x"
    "lowercase_only (normalize_NFKD ucd_excerpt (str_lower ucd_excerpt ?x))"
    "no_punctuation (normalize_NFKD ucd_excerpt (str_lower ucd_excerpt ?x))"
    by (simp_all add: ascii_only_def no_punctuation_def lowercase_only_def text_defs)
  have val: "clean_text ucd_excerpt ?x = of_ascii ''so col''"
    by (simp add: text_defs)
  show ?thesis
    using clean_text_normal_form [of ucd_excerpt ?x]
      clean_text_normal_form [of ucd_excerpt "of_ascii ''a-a'' @ [8482]"]
      ascii_exact_ucd_excerpt pre val
    by simp
qed

text \<open>
  The input \<^verbatim>\<open>a-a\<close> followed by U+2122: the hyphen is deleted after the repeats have been
  collapsed, and the sign decomposes to \<^verbatim>\<open>TM\<close> after the text has been lowercased. The
  output is \<^verbatim>\<open>aaTM\<close>.
\<close>

theorem clean_text_not_normalized:
  "clean_text ucd_excerpt (of_ascii ''a-a'' @ [8482]) = of_ascii ''aaTM'' \<and>
   \<not> distinct_adj (clean_text ucd_excerpt (of_ascii ''a-a'' @ [8482])) \<and>
   \<not> lowercase_only (clean_text ucd_excerpt (of_ascii ''a-a'' @ [8482])) \<and>
   \<not> NormalizedText (clean_text ucd_excerpt (of_ascii ''a-a'' @ [8482]))"
proof -
  have "clean_text ucd_excerpt (of_ascii ''a-a'' @ [8482]) = of_ascii ''aaTM''"
    by (simp add: text_defs)
  then show ?thesis
    by (simp add: NormalizedText_def lowercase_only_def of_ascii_def)
qed

subsection \<open>Cleaning twice\<close>



lemma clean_text_of_normal:
  assumes U: "ascii_exact U" and a: "ascii_only y" and p: "no_punctuation y"
      and w: "whitespace_collapsed y" and t: "trimmed y"
  shows "clean_text U y = sub_repeats (map ascii_lower y)"
proof -
  let ?z = "map ascii_lower y"
  let ?z' = "sub_repeats ?z"
  have lower: "str_lower U y = ?z" using U a by (simp add: ascii_exact_def)
  have az: "ascii_only ?z" using a by (rule ascii_only_ascii_lower)
  have nfkd: "normalize_NFKD U ?z = ?z" using U az by (simp add: ascii_exact_def)
  have enc: "encode_ascii_ignore ?z = ?z"
    using az by (simp add: encode_ascii_ignore_def ascii_only_def)
  have "\<forall>c\<in>set ?z. c \<notin> set punctuation"
    using p by (simp add: no_punctuation_def ascii_lower_punctuation)
  then have pun: "sub_punctuation ?z' = ?z'"
    by (simp add: sub_punctuation_def set_sub_repeats)
  have spy: "\<forall>c\<in>set y. isspace c \<longrightarrow> c = 32"
    using w by (simp add: whitespace_collapsed_def)
  then have sp: "\<forall>c\<in>set ?z. isspace c \<longrightarrow> c = 32"
    by (auto simp: isspace_ascii_lower ascii_lower_32)
  from spy have "10 \<notin> set ?z" by (rule no_newline)
  then have "distinct_adj ?z'" by (rule distinct_adj_sub_repeats)
  then have "successively (\<lambda>a b. \<not> (a = 32 \<and> b = 32)) ?z'"
    unfolding distinct_adj_def by (rule successively_mono) auto
  with sp have wz: "whitespace_collapsed ?z'"
    by (simp add: whitespace_collapsed_def set_sub_repeats)
  have tz: "trimmed ?z'"
  proof (cases "y = []")
    case True
    then show ?thesis by (simp add: trimmed_def)
  next
    case False
    with t have "\<not> isspace (hd y)" "\<not> isspace (last y)" by (simp_all add: trimmed_def)
    then have "\<not> isspace (ascii_lower (hd y))" "\<not> isspace (ascii_lower (last y))"
      by (simp_all add: isspace_ascii_lower)
    with False show ?thesis
      by (simp add: trimmed_def hd_sub_repeats last_sub_repeats hd_map last_map)
  qed
  show ?thesis
    using join_split_id [OF wz tz]
    by (simp add: clean_text_def lower nfkd enc pun)
qed

lemma clean_text_twice:
  assumes "ascii_exact U"
  shows "clean_text U (clean_text U x) = sub_repeats (map ascii_lower (clean_text U x))"
  using assms clean_text_ascii clean_text_no_punctuation clean_text_whitespace
  by (intro clean_text_of_normal) auto

lemma map_ascii_lower_id: "lowercase_only s \<Longrightarrow> map ascii_lower s = s"
  by (induction s) (auto simp: lowercase_only_def ascii_lower_def)

lemma clean_text_fixed_iff:
  assumes "ascii_exact U"
  shows "clean_text U (clean_text U x) = clean_text U x
           \<longleftrightarrow> distinct_adj (clean_text U x) \<and> lowercase_only (clean_text U x)"
proof
  let ?y = "clean_text U x"
  assume fixed: "clean_text U ?y = ?y"
  then have y: "?y = sub_repeats (map ascii_lower ?y)"
    using clean_text_twice [OF assms, of x] by simp
  have "\<forall>c\<in>set ?y. isspace c \<longrightarrow> c = 32"
    using clean_text_whitespace [of U x] by (simp add: whitespace_collapsed_def)
  then have "10 \<notin> set (map ascii_lower ?y)"
    by (rule no_newline)
  then have "distinct_adj (sub_repeats (map ascii_lower ?y))"
    by (rule distinct_adj_sub_repeats)
  moreover have "lowercase_only (sub_repeats (map ascii_lower ?y))"
    using lowercase_only_ascii_lower [of ?y]
    by (simp add: lowercase_only_def set_sub_repeats del: set_map)
  ultimately show "distinct_adj ?y \<and> lowercase_only ?y"
    using y by simp
next
  assume "distinct_adj (clean_text U x) \<and> lowercase_only (clean_text U x)"
  then show "clean_text U (clean_text U x) = clean_text U x"
    using clean_text_twice [OF assms, of x] by (simp add: map_ascii_lower_id sub_repeats_id)
qed

text \<open>
  C1, as amended. Where the Unicode tables are as they are on ASCII text, cleaning a
  cleaned text again changes nothing exactly when the cleaned text has no two equal
  characters side by side and no capital letter; and for every input the second cleaning
  reaches a text that further cleaning leaves as it is.
\<close>

theorem clean_text_idempotent_iff:
  assumes "ascii_exact U"
  shows "(clean_text U (clean_text U x) = clean_text U x
            \<longleftrightarrow> distinct_adj (clean_text U x) \<and> lowercase_only (clean_text U x)) \<and>
         clean_text U (clean_text U (clean_text U x)) = clean_text U (clean_text U x)"
proof -
  let ?y = "clean_text U x"
  have y2: "clean_text U ?y = sub_repeats (map ascii_lower ?y)"
    using clean_text_twice [OF assms] .
  have "\<forall>c\<in>set ?y. isspace c \<longrightarrow> c = 32"
    using clean_text_whitespace [of U x] by (simp add: whitespace_collapsed_def)
  then have "10 \<notin> set (map ascii_lower ?y)"
    by (rule no_newline)
  then have "distinct_adj (clean_text U ?y)"
    unfolding y2 by (rule distinct_adj_sub_repeats)
  moreover have "lowercase_only (clean_text U ?y)"
    unfolding y2 using lowercase_only_ascii_lower [of ?y]
    by (simp add: lowercase_only_def set_sub_repeats del: set_map)
  ultimately have "clean_text U (clean_text U (clean_text U x)) = clean_text U (clean_text U x)"
    using clean_text_fixed_iff [OF assms, of ?y] by simp
  then show ?thesis
    using clean_text_fixed_iff [OF assms, of x] by simp
qed

theorem clean_text_idempotent_iff_witness:
  "ascii_exact ucd_excerpt \<and>
   distinct_adj (clean_text ucd_excerpt (of_ascii ''soooo coooool!!'')) \<and>
   lowercase_only (clean_text ucd_excerpt (of_ascii ''soooo coooool!!'')) \<and>
   clean_text ucd_excerpt (clean_text ucd_excerpt (of_ascii ''soooo coooool!!''))
     = clean_text ucd_excerpt (of_ascii ''soooo coooool!!'') \<and>
   clean_text ucd_excerpt (clean_text ucd_excerpt (clean_text ucd_excerpt (of_ascii ''a-a'')))
     = clean_text ucd_excerpt (clean_text ucd_excerpt (of_ascii ''a-a''))"
proof -
  have "clean_text ucd_excerpt (of_ascii ''soooo coooool!!'') = of_ascii ''so col''"
    by (simp add: text_defs)
  then have "distinct_adj (clean_text ucd_excerpt (of_ascii ''soooo coooool!!''))"
    and "lowercase_only (clean_text ucd_excerpt (of_ascii ''soooo coooool!!''))"
    by (simp_all add: lowercase_only_def of_ascii_def)
  then show ?thesis
    using clean_text_idempotent_iff [OF ascii_exact_ucd_excerpt, of "of_ascii ''soooo coooool!!''"]
      clean_text_idempotent_iff [OF ascii_exact_ucd_excerpt, of "of_ascii ''a-a''"]
      ascii_exact_ucd_excerpt
    by simp
qed

text \<open>
  The input \<^verbatim>\<open>a-a\<close> is cleaned to \<^verbatim>\<open>aa\<close>, and \<^verbatim>\<open>aa\<close> is cleaned to \<^verbatim>\<open>a\<close>.
\<close>

theorem clean_text_not_idempotent:
  "clean_text ucd_excerpt (of_ascii ''a-a'') = of_ascii ''aa'' \<and>
   clean_text ucd_excerpt (of_ascii ''aa'') = of_ascii ''a'' \<and>
   clean_text ucd_excerpt (clean_text ucd_excerpt (of_ascii ''a-a''))
     \<noteq> clean_text ucd_excerpt (of_ascii ''a-a'')"
  by (simp add: text_defs)

section \<open>Spam patterns\<close>

lemma startswith_chars: "startswith s p \<Longrightarrow> set p \<subseteq> set s"
  unfolding startswith_def by (metis set_take_subset)

lemma contains_chars: "contains s p \<Longrightarrow> set p \<subseteq> set s"
proof (induction s)
  case Nil
  then show ?case by simp
next
  case (Cons c cs)
  then have "startswith (c # cs) p \<or> set p \<subseteq> set cs" by auto
  then show ?case using startswith_chars [of "c # cs" p] by auto
qed

text \<open>
  C10. A stored spam pattern that has one of the ten punctuation characters occurs in no
  cleaned message, whatever the message and the Unicode tables are; so \<^verbatim>\<open>is_spam\<close>
  gives the same answer with the pattern as without it.
\<close>

theorem punctuated_pattern_never_matches:
  assumes "\<exists>c\<in>set pattern. c \<in> set punctuation"
  shows "\<not> contains (clean_text U message) pattern \<and>
         is_spam U d message
           = is_spam U (d\<lparr>spam_patterns := removeAll pattern (spam_patterns d)\<rparr>) message"
proof -
  have no: "\<not> contains (clean_text U message) pattern"
    using assms clean_text_no_punctuation [of U message] contains_chars
    by (fastforce simp: no_punctuation_def)
  then show ?thesis
    by (auto simp: is_spam_def list_ex_iff)
qed

theorem punctuated_pattern_never_matches_witness:
  "(\<exists>c\<in>set (of_ascii ''free-money''). c \<in> set punctuation) \<and>
   \<not> contains (clean_text ucd_excerpt (of_ascii ''FREE-MONEY now'')) (of_ascii ''free-money'') \<and>
   \<not> is_spam ucd_excerpt \<lparr>spam_patterns = [of_ascii ''free-money'']\<rparr> (of_ascii ''FREE-MONEY now'')"
proof -
  have p: "\<exists>c\<in>set (of_ascii ''free-money''). c \<in> set punctuation"
    by (simp add: of_ascii_def punctuation_def)
  from punctuated_pattern_never_matches [OF p, of ucd_excerpt "of_ascii ''FREE-MONEY now''"
      "\<lparr>spam_patterns = [of_ascii ''free-money'']\<rparr>"] p
  show ?thesis by (simp add: is_spam_def)
qed

text \<open>
  C2. The specification's examples of spam matching, run on the code: with the pattern
  \<^verbatim>\<open>free money\<close> configured, the message \<^verbatim>\<open>FREE   MONEY!!\<close> is cleaned to
  \<^verbatim>\<open>fre money\<close> (the doubled \<^verbatim>\<open>e\<close> is collapsed), in which the pattern, stored as
  \<^verbatim>\<open>free money\<close>, does not occur; with the pattern \<^verbatim>\<open>free\<close>, the message \<^verbatim>\<open>freedom\<close> is
  cleaned to \<^verbatim>\<open>fredom\<close>. \<^verbatim>\<open>is_spam\<close> is false on both.
\<close>

theorem is_spam_misses_doubled_letters:
  "clean_text ucd_excerpt (of_ascii ''FREE   MONEY!!'') = of_ascii ''fre money'' \<and>
   \<not> is_spam ucd_excerpt (SpamDetector_init ucd_excerpt [of_ascii ''free money''])
        (of_ascii ''FREE   MONEY!!'') \<and>
   clean_text ucd_excerpt (of_ascii ''freedom'') = of_ascii ''fredom'' \<and>
   \<not> is_spam ucd_excerpt (SpamDetector_init ucd_excerpt [of_ascii ''free''])
        (of_ascii ''freedom'')"
  by (simp add: text_defs SpamDetector_init_def)

section \<open>The commands\<close>

text \<open>
  C8. Issued by an author who is neither a moderator nor the broadcaster, each of the six
  commands returns at once: the bot (trigger map, spam patterns and all other fields) is
  unchanged, and no call is made, so nothing is sent and nothing is written to the
  configuration file. The same holds for the command reached through
  \<^verbatim>\<open>handle_commands\<close>, whatever the parser finds.
\<close>

theorem unprivileged_command_ignored:
  assumes "\<not> author_is_mod ctx"
      and "str_lower U (author_name ctx) \<noteq> str_lower U (channel_name ctx)"
  shows "invoke U b env ctx cmd = (b, [], None) \<and>
         handle_commands parse U b env ctx = (b, [], None)"
proof -
  have inv: "invoke U b env ctx c = (b, [], None)" for c
    using assms by (cases c) (simp_all add: command_defs)
  show ?thesis
    by (simp add: inv handle_commands_def split: option.split)
qed

theorem unprivileged_command_ignored_witness:
  "\<not> author_is_mod (viewer_says (of_ascii ''!addresponse go bye'')) \<and>
   str_lower ucd_excerpt (author_name (viewer_says (of_ascii ''!addresponse go bye'')))
     \<noteq> str_lower ucd_excerpt (channel_name (viewer_says (of_ascii ''!addresponse go bye''))) \<and>
   invoke ucd_excerpt demo_bot demo_env (viewer_says (of_ascii ''!addresponse go bye''))
     (Addresponse (of_ascii ''go'') (of_ascii ''bye'')) = (demo_bot, [], None) \<and>
   handle_commands (\<lambda>_. Some (Addresponse (of_ascii ''go'') (of_ascii ''bye''))) ucd_excerpt
     demo_bot demo_env (viewer_says (of_ascii ''!addresponse go bye'')) = (demo_bot, [], None)"
  using unprivileged_command_ignored [of "viewer_says (of_ascii ''!addresponse go bye'')"
      ucd_excerpt demo_bot demo_env "Addresponse (of_ascii ''go'') (of_ascii ''bye'')"
      "\<lambda>_. Some (Addresponse (of_ascii ''go'') (of_ascii ''bye''))"]
  by (simp add: viewer_says_def ucd_excerpt_def of_ascii_def ascii_lower_def)



section \<open>Messages\<close>

lemma invoke_frame:
  "response_delay (fst (invoke U b env ctx cmd)) = response_delay b \<and>
   last_response_time (fst (invoke U b env ctx cmd)) = last_response_time b \<and>
   Send_response r \<notin> set (fst (snd (invoke U b env ctx cmd)))"
  by (cases cmd)
     (simp_all add: command_defs save_config_def ctx_send_def Let_def split: option.split)

lemma handle_commands_frame:
  "response_delay (fst (handle_commands parse U b env m)) = response_delay b \<and>
   last_response_time (fst (handle_commands parse U b env m)) = last_response_time b \<and>
   Send_response r \<notin> set (fst (snd (handle_commands parse U b env m)))"
  by (simp add: handle_commands_def invoke_frame split: option.split)

lemma respond_find:
  "respond U b env t ws items =
     (case find (\<lambda>(trigger, response). clean_text U trigger \<in> set ws) items of
        None \<Rightarrow> (b, [], None)
      | Some (trigger, response) \<Rightarrow>
          (case send_raises env of
             None \<Rightarrow> (b\<lparr>last_response_time := t\<rparr>, [Send_response response], None)
           | Some e \<Rightarrow> (b, [Send_response response], Some e)))"
  by (induction items) (auto split: option.split)

lemma respond_frame:
  "response_delay (fst (respond U b env t ws items)) = response_delay b"
  by (simp add: respond_find split: option.split prod.split)

lemma respond_fired:
  "respond U b env t ws items = (b', calls, None) \<Longrightarrow> Send_response r \<in> set calls \<Longrightarrow>
     last_response_time b' = t"
  by (auto simp: respond_find split: option.splits prod.splits)

lemma event_message_delay:
  "response_delay (fst (event_message parse U b env m)) = response_delay b"
  using handle_commands_frame [of parse U b env m]
  by (simp add: event_message_def Let_def respond_frame split: option.split)

lemma event_message_cooldown:
  assumes "time_now env - last_response_time b < response_delay b"
  shows "last_response_time (fst (event_message parse U b env m)) = last_response_time b \<and>
         Send_response r \<notin> set (fst (snd (event_message parse U b env m)))"
  using assms handle_commands_frame [of parse U b env m r]
  by (simp add: event_message_def Let_def split: option.split)

lemma event_message_fired:
  assumes "event_message parse U b env m = (b', calls, None)" and "Send_response r \<in> set calls"
  shows "last_response_time b' = time_now env"
proof -
  have hc: "Send_response r \<notin> set (fst (snd (handle_commands parse U b env m)))"
    using handle_commands_frame by blast
  show ?thesis
    using assms hc
    by (auto simp: event_message_def Let_def split: if_splits option.splits
             dest: respond_fired)
qed

lemma event_message_raised:
  assumes "event_message parse U b env m = (b', calls, Some e)" and "Send_response r \<in> set calls"
  shows "b' = b"
proof -
  have hc: "Send_response r \<notin> set (fst (snd (handle_commands parse U b env m)))"
    using handle_commands_frame by blast
  show ?thesis
    using assms hc
    by (auto simp: event_message_def Let_def respond_find
             split: if_splits option.splits prod.splits)
qed

lemma run_quiet:
  fixes b :: "'t::{minus,ord} bot"
  assumes "\<forall>(env, m)\<in>set events. time_now env - last_response_time b < response_delay b"
  shows "last_response_time (fst (run parse U b events)) = last_response_time b \<and>
         Send_response r \<notin> set (snd (run parse U b events))"
  using assms
proof (induction events arbitrary: b)
  case Nil
  then show ?case by simp
next
  case (Cons ev events)
  obtain env m where ev: "ev = (env, m)" by (cases ev)
  obtain b' calls exc where step: "event_message parse U b env m = (b', calls, exc)"
    by (cases "event_message parse U b env m")
  from Cons.prems ev have "time_now env - last_response_time b < response_delay b"
    by simp
  from event_message_cooldown [OF this, of parse U m r] step
  have keep: "last_response_time b' = last_response_time b" and quiet: "Send_response r \<notin> set calls"
    by simp_all
  from event_message_delay [of parse U b env m] step
  have delay: "response_delay b' = response_delay b" by simp
  from Cons.prems keep delay
  have "\<forall>(env, m)\<in>set events. time_now env - last_response_time b' < response_delay b'"
    by simp
  from Cons.IH [OF this] keep quiet show ?case
    by (auto simp: ev step split: prod.split)
qed

lemma demo_hello:
  "event_message parse ucd_excerpt demo_bot demo_env (viewer_says (of_ascii ''oh hi, HELLO there''))
     = (demo_bot\<lparr>last_response_time := 5\<rparr>, [Send_response (of_ascii ''hi'')], None)"
  by (simp add: run_defs)

lemma demo_this:
  "event_message parse ucd_excerpt demo_bot demo_env (viewer_says (of_ascii ''this''))
     = (demo_bot, [], None)"
  by (simp add: run_defs)

lemma demo_cooldown:
  "event_message parse ucd_excerpt (demo_bot\<lparr>last_response_time := 5\<rparr>)
     (demo_env\<lparr>time_now := 7\<rparr>) (viewer_says (of_ascii ''hello''))
     = (demo_bot\<lparr>last_response_time := 5\<rparr>, [], None)"
  by (simp add: run_defs)

lemma demo_after:
  "event_message parse ucd_excerpt (demo_bot\<lparr>last_response_time := 5\<rparr>)
     (demo_env\<lparr>time_now := 8\<rparr>) (viewer_says (of_ascii ''hello''))
     = (demo_bot\<lparr>last_response_time := 8\<rparr>, [Send_response (of_ascii ''hi'')], None)"
  by (simp add: run_defs)

lemma demo_spam_viewer:
  "event_message parse ucd_excerpt demo_bot demo_env (viewer_says (of_ascii ''CASINO hello''))
     = (demo_bot,
        [Send_timeout (of_ascii ''/timeout Bob 3''), Delete_message,
         Print (of_ascii ''Timeout user Bob for spam'')], None)"
  by (simp add: run_defs)

lemma demo_spam_mod:
  "event_message parse ucd_excerpt demo_bot demo_env (mod_says (of_ascii ''CASINO hello''))
     = (demo_bot, [Print (of_ascii ''Skipping timeout for privileged user Ann'')], None)"
  by (simp add: run_defs)

lemma demo_spam_send_fails:
  "event_message parse ucd_excerpt demo_bot (demo_env\<lparr>send_raises := Some (of_ascii ''closed'')\<rparr>)
     (viewer_says (of_ascii ''CASINO hello''))
     = (demo_bot,
        [Send_timeout (of_ascii ''/timeout Bob 3''),
         Print (of_ascii ''Failed to timeout user: closed'')], None)"
  by (simp add: run_defs)

lemma demo_is_spam:
  "is_spam ucd_excerpt (spam_detector demo_bot) (of_ascii ''CASINO hello'')"
  "\<not> is_spam ucd_excerpt (spam_detector demo_bot) (of_ascii ''oh hi, HELLO there'')"
  "\<not> is_spam ucd_excerpt (spam_detector demo_bot) (of_ascii ''hello'')"
  by (simp_all add: demo_defs text_defs)

lemma demo_send_raises:
  "event_message parse ucd_excerpt demo_bot (demo_env\<lparr>send_raises := Some (of_ascii ''closed'')\<rparr>)
     (viewer_says (of_ascii ''hello''))
     = (demo_bot, [Send_response (of_ascii ''hi'')], Some (of_ascii ''closed''))"
  by (simp add: run_defs)

lemma demo_second:
  "event_message parse ucd_excerpt demo_bot (demo_env\<lparr>time_now := 6\<rparr>)
     (viewer_says (of_ascii ''hello''))
     = (demo_bot\<lparr>last_response_time := 6\<rparr>, [Send_response (of_ascii ''hi'')], None)"
  by (simp add: run_defs)

lemma demo_hello_raises:
  "event_message parse ucd_excerpt demo_bot (demo_env\<lparr>send_raises := Some (of_ascii ''closed'')\<rparr>)
     (viewer_says (of_ascii ''oh hi, HELLO there''))
     = (demo_bot, [Send_response (of_ascii ''hi'')], Some (of_ascii ''closed''))"
  by (simp add: run_defs)

text \<open>
  C6. A message that is no command and that \<^verbatim>\<open>is_spam\<close> classifies as spam leaves the
  bot unchanged and sends no trigger response, whoever its author is and whatever the
  trigger map holds.
\<close>

theorem spam_ends_processing:
  assumes "\<not> startswith (content m) (of_ascii ''!'')"
      and "is_spam U (spam_detector b) (content m)"
  shows "fst (event_message parse U b env m) = b \<and>
         (\<forall>r. Send_response r \<notin> set (fst (snd (event_message parse U b env m))))"
  using assms by (simp add: event_message_def Let_def split: option.split)

theorem spam_ends_processing_witness:
  "\<not> startswith (content (mod_says (of_ascii ''CASINO hello''))) (of_ascii ''!'') \<and>
   is_spam ucd_excerpt (spam_detector demo_bot) (content (mod_says (of_ascii ''CASINO hello''))) \<and>
   fst (event_message (\<lambda>_. None) ucd_excerpt demo_bot demo_env (mod_says (of_ascii ''CASINO hello'')))
     = demo_bot \<and>
   (\<forall>r. Send_response r \<notin> set (fst (snd (event_message (\<lambda>_. None) ucd_excerpt demo_bot demo_env
      (mod_says (of_ascii ''CASINO hello''))))))"
proof -
  let ?m = "mod_says (of_ascii ''CASINO hello'')"
  have pre: "\<not> startswith (content ?m) (of_ascii ''!'')"
    "is_spam ucd_excerpt (spam_detector demo_bot) (content ?m)"
    by (simp_all add: demo_defs text_defs)
  from spam_ends_processing [OF pre, where parse = "\<lambda>_. None" and env = demo_env] pre
  show ?thesis by simp
qed

text \<open>
  C7, as amended. For a message that reaches the spam check and is classified as spam:
  from a moderator or the broadcaster, the only call is the log line, so neither the
  timeout nor the deletion is attempted; from any other author the timeout is sent
  first, and the deletion of the message is attempted next when the send of the timeout
  has returned. When the send of the timeout raises, the failure is logged and the
  deletion is not attempted.
\<close>

theorem spam_moderation:
  assumes "\<not> echo m" and "\<not> startswith (content m) (of_ascii ''!'')"
      and "is_spam U (spam_detector b) (content m)"
  shows
    "(author_is_mod m \<or> str_lower U (author_name m) = str_lower U (channel_name m)
        \<longrightarrow> event_message parse U b env m =
              (b, [Print (of_ascii ''Skipping timeout for privileged user '' @ author_name m)],
               None)) \<and>
     (\<not> author_is_mod m \<and> str_lower U (author_name m) \<noteq> str_lower U (channel_name m) \<and>
      send_raises env = None
        \<longrightarrow> (\<exists>line. event_message parse U b env m =
              (b, [Send_timeout (of_ascii ''/timeout '' @ author_name m @ of_ascii '' 3''),
                   Delete_message, Print line], None))) \<and>
     (\<not> author_is_mod m \<and> str_lower U (author_name m) \<noteq> str_lower U (channel_name m) \<and>
      send_raises env = Some e
        \<longrightarrow> event_message parse U b env m =
              (b, [Send_timeout (of_ascii ''/timeout '' @ author_name m @ of_ascii '' 3''),
                   Print (of_ascii ''Failed to timeout user: '' @ e)], None))"
  using assms by (auto simp: event_message_def Let_def split: option.split)

theorem spam_moderation_witness:
  "\<not> echo (viewer_says (of_ascii ''CASINO hello'')) \<and>
   \<not> startswith (content (viewer_says (of_ascii ''CASINO hello''))) (of_ascii ''!'') \<and>
   is_spam ucd_excerpt (spam_detector demo_bot) (content (viewer_says (of_ascii ''CASINO hello''))) \<and>
   \<not> author_is_mod (viewer_says (of_ascii ''CASINO hello'')) \<and>
   str_lower ucd_excerpt (author_name (viewer_says (of_ascii ''CASINO hello'')))
     \<noteq> str_lower ucd_excerpt (channel_name (viewer_says (of_ascii ''CASINO hello''))) \<and>
   send_raises (demo_env\<lparr>send_raises := Some (of_ascii ''closed'')\<rparr>) = Some (of_ascii ''closed'') \<and>
   event_message (\<lambda>_. None) ucd_excerpt demo_bot
     (demo_env\<lparr>send_raises := Some (of_ascii ''closed'')\<rparr>) (viewer_says (of_ascii ''CASINO hello''))
     = (demo_bot,
        [Send_timeout (of_ascii ''/timeout '' @ author_name (viewer_says (of_ascii ''CASINO hello''))
           @ of_ascii '' 3''),
         Print (of_ascii ''Failed to timeout user: '' @ of_ascii ''closed'')], None) \<and>
   event_message (\<lambda>_. None) ucd_excerpt demo_bot demo_env (viewer_says (of_ascii ''CASINO hello''))
     = (demo_bot,
        [Send_timeout (of_ascii ''/timeout Bob 3''), Delete_message,
         Print (of_ascii ''Timeout user Bob for spam'')], None) \<and>
   event_message (\<lambda>_. None) ucd_excerpt demo_bot demo_env (mod_says (of_ascii ''CASINO hello''))
     = (demo_bot, [Print (of_ascii ''Skipping timeout for privileged user Ann'')], None)"
proof -
  let ?m = "viewer_says (of_ascii ''CASINO hello'')"
  let ?env = "demo_env\<lparr>send_raises := Some (of_ascii ''closed'')\<rparr>"
  have pre: "\<not> echo ?m" "\<not> startswith (content ?m) (of_ascii ''!'')"
    "is_spam ucd_excerpt (spam_detector demo_bot) (content ?m)"
    by (simp_all add: demo_defs text_defs)
  have viewer: "\<not> author_is_mod ?m"
    "str_lower ucd_excerpt (author_name ?m) \<noteq> str_lower ucd_excerpt (channel_name ?m)"
    "send_raises ?env = Some (of_ascii ''closed'')"
    by (simp_all add: demo_defs text_defs)
  from spam_moderation [OF pre, where env = ?env and e = "of_ascii ''closed''"
      and parse = "\<lambda>_. None"] viewer
  have "event_message (\<lambda>_. None) ucd_excerpt demo_bot ?env ?m
     = (demo_bot,
        [Send_timeout (of_ascii ''/timeout '' @ author_name ?m @ of_ascii '' 3''),
         Print (of_ascii ''Failed to timeout user: '' @ of_ascii ''closed'')], None)"
    by blast
  with pre viewer demo_spam_viewer [of "\<lambda>_. None"] demo_spam_mod [of "\<lambda>_. None"]
  show ?thesis by simp
qed

text \<open>
  A viewer's spam message while the send of the timeout raises: the calls are the
  timeout and the log line; the message is not deleted.
\<close>

theorem failed_timeout_skips_delete:
  "\<not> echo (viewer_says (of_ascii ''CASINO hello'')) \<and>
   \<not> startswith (content (viewer_says (of_ascii ''CASINO hello''))) (of_ascii ''!'') \<and>
   is_spam ucd_excerpt (spam_detector demo_bot) (content (viewer_says (of_ascii ''CASINO hello''))) \<and>
   \<not> author_is_mod (viewer_says (of_ascii ''CASINO hello'')) \<and>
   str_lower ucd_excerpt (author_name (viewer_says (of_ascii ''CASINO hello'')))
     \<noteq> str_lower ucd_excerpt (channel_name (viewer_says (of_ascii ''CASINO hello''))) \<and>
   Delete_message \<notin> set (fst (snd (event_message (\<lambda>_. None) ucd_excerpt demo_bot
      (demo_env\<lparr>send_raises := Some (of_ascii ''closed'')\<rparr>)
      (viewer_says (of_ascii ''CASINO hello'')))))"
  by (simp add: demo_spam_send_fails) (simp add: demo_defs text_defs)

text \<open>
  C5, as amended. For a message that is neither echo, command nor spam, outside the
  cooldown: the cleaned message is split into words, and the first entry of the trigger
  map, in insertion order, whose cleaned trigger is one of the words (equal to a word,
  not part of one) decides. Its response is sent, and this is the only call. When the
  send has returned, the time of the last response is the current time; when the send
  raises, the exception leaves the handler and the bot, with the time of the last
  response, is unchanged. If no entry matches, no call is made and the bot is unchanged.
\<close>

theorem first_matching_trigger_responds:
  assumes "\<not> echo m" and "\<not> startswith (content m) (of_ascii ''!'')"
      and "\<not> is_spam U (spam_detector b) (content m)"
      and "\<not> time_now env - last_response_time b < response_delay b"
  shows "event_message parse U b env m =
     (case find (\<lambda>(trigger, response).
                   clean_text U trigger \<in> set (split (clean_text U (content m))))
             (word_responses b) of
        None \<Rightarrow> (b, [], None)
      | Some (trigger, response) \<Rightarrow>
          (case send_raises env of
             None \<Rightarrow> (b\<lparr>last_response_time := time_now env\<rparr>, [Send_response response], None)
           | Some e \<Rightarrow> (b, [Send_response response], Some e)))
     \<and> length (fst (snd (event_message parse U b env m))) \<le> 1"
  using assms
  by (simp add: event_message_def Let_def respond_find split: option.split prod.split)

theorem first_matching_trigger_responds_witness:
  "\<not> echo (viewer_says (of_ascii ''oh hi, HELLO there'')) \<and>
   \<not> startswith (content (viewer_says (of_ascii ''oh hi, HELLO there''))) (of_ascii ''!'') \<and>
   \<not> is_spam ucd_excerpt (spam_detector demo_bot)
       (content (viewer_says (of_ascii ''oh hi, HELLO there''))) \<and>
   \<not> time_now demo_env - last_response_time demo_bot < response_delay demo_bot \<and>
   find (\<lambda>(trigger, response). clean_text ucd_excerpt trigger
            \<in> set (split (clean_text ucd_excerpt
                  (content (viewer_says (of_ascii ''oh hi, HELLO there''))))))
     (word_responses demo_bot) = Some (of_ascii ''hello'', of_ascii ''hi'') \<and>
   event_message (\<lambda>_. None) ucd_excerpt demo_bot demo_env
     (viewer_says (of_ascii ''oh hi, HELLO there''))
     = (demo_bot\<lparr>last_response_time := time_now demo_env\<rparr>,
        [Send_response (of_ascii ''hi'')], None) \<and>
   event_message (\<lambda>_. None) ucd_excerpt demo_bot
     (demo_env\<lparr>send_raises := Some (of_ascii ''closed'')\<rparr>)
     (viewer_says (of_ascii ''oh hi, HELLO there''))
     = (demo_bot, [Send_response (of_ascii ''hi'')], Some (of_ascii ''closed'')) \<and>
   event_message (\<lambda>_. None) ucd_excerpt demo_bot demo_env (viewer_says (of_ascii ''this''))
     = (demo_bot, [], None)"
proof -
  let ?m = "viewer_says (of_ascii ''oh hi, HELLO there'')"
  let ?env = "demo_env\<lparr>send_raises := Some (of_ascii ''closed'')\<rparr>"
  have pre: "\<not> echo ?m" "\<not> startswith (content ?m) (of_ascii ''!'')"
    "\<not> is_spam ucd_excerpt (spam_detector demo_bot) (content ?m)"
    "\<not> time_now demo_env - last_response_time demo_bot < response_delay demo_bot"
    by (simp_all add: demo_defs text_defs)
  have pre': "\<not> time_now ?env - last_response_time demo_bot < response_delay demo_bot"
    by (simp add: demo_defs)
  have found: "find (\<lambda>(trigger, response). clean_text ucd_excerpt trigger
            \<in> set (split (clean_text ucd_excerpt (content ?m))))
     (word_responses demo_bot) = Some (of_ascii ''hello'', of_ascii ''hi'')"
    by (simp add: demo_defs text_defs)
  have quiet: "send_raises demo_env = None" "send_raises ?env = Some (of_ascii ''closed'')"
    by (simp_all add: demo_defs)
  from first_matching_trigger_responds [OF pre, where parse = "\<lambda>_. None"]
    first_matching_trigger_responds [OF pre(1,2,3) pre', where parse = "\<lambda>_. None"]
    found quiet pre demo_this [of "\<lambda>_. None"]
  show ?thesis by simp
qed

text \<open>
  A viewer's \<^verbatim>\<open>oh hi, HELLO there\<close> outside the cooldown while the send raises: the
  trigger \<^verbatim>\<open>hello\<close> matches and its response is handed to the send, but the time of the
  last response is not the current time.
\<close>

theorem raising_send_keeps_last_response_time:
  "\<not> echo (viewer_says (of_ascii ''oh hi, HELLO there'')) \<and>
   \<not> startswith (content (viewer_says (of_ascii ''oh hi, HELLO there''))) (of_ascii ''!'') \<and>
   \<not> is_spam ucd_excerpt (spam_detector demo_bot)
       (content (viewer_says (of_ascii ''oh hi, HELLO there''))) \<and>
   \<not> time_now (demo_env\<lparr>send_raises := Some (of_ascii ''closed'')\<rparr>) - last_response_time demo_bot
       < response_delay demo_bot \<and>
   clean_text ucd_excerpt (of_ascii ''hello'')
     \<in> set (split (clean_text ucd_excerpt (content (viewer_says (of_ascii ''oh hi, HELLO there''))))) \<and>
   fst (snd (event_message (\<lambda>_. None) ucd_excerpt demo_bot
     (demo_env\<lparr>send_raises := Some (of_ascii ''closed'')\<rparr>)
     (viewer_says (of_ascii ''oh hi, HELLO there'')))) = [Send_response (of_ascii ''hi'')] \<and>
   last_response_time (fst (event_message (\<lambda>_. None) ucd_excerpt demo_bot
     (demo_env\<lparr>send_raises := Some (of_ascii ''closed'')\<rparr>)
     (viewer_says (of_ascii ''oh hi, HELLO there''))))
     \<noteq> time_now (demo_env\<lparr>send_raises := Some (of_ascii ''closed'')\<rparr>)"
  by (simp add: demo_hello_raises) (simp add: demo_defs text_defs)

text \<open>
  C4, as amended. The test is the code's own, \<open>now - last_response_time < response_delay\<close>,
  in whatever arithmetic the timestamps have; nothing but subtraction and comparison is
  used. A message that reaches the trigger stage while the test holds makes no call and
  leaves the bot unchanged, whatever its text and the trigger map are. A trigger response
  whose send has returned at time \<open>t\<close> sets the time of the last response to \<open>t\<close> and
  leaves the delay as it is; over any further events, on any channel and of any kind,
  that all satisfy \<open>now - t < response_delay\<close>, no trigger response is sent and the time
  of the last response stays \<open>t\<close>. A trigger response whose send raises leaves the bot
  unchanged.
\<close>

theorem cooldown_enforced:
  fixes b :: "'t::{minus,ord} bot"
  shows
    "(\<not> echo m \<and> \<not> startswith (content m) (of_ascii ''!'') \<and>
      \<not> is_spam U (spam_detector b) (content m) \<and>
      time_now env - last_response_time b < response_delay b
        \<longrightarrow> event_message parse U b env m = (b, [], None)) \<and>
     (event_message parse U b env m = (b', calls, exc) \<and> Send_response r \<in> set calls
        \<longrightarrow> response_delay b' = response_delay b \<and>
            (exc \<noteq> None \<longrightarrow> b' = b) \<and>
            (exc = None \<longrightarrow> last_response_time b' = time_now env \<and>
               ((\<forall>(env', m')\<in>set events. time_now env' - time_now env < response_delay b)
                  \<longrightarrow> (\<forall>r'. Send_response r' \<notin> set (snd (run parse U b' events))) \<and>
                      last_response_time (fst (run parse U b' events)) = time_now env)))"
proof (intro conjI impI)
  assume "\<not> echo m \<and> \<not> startswith (content m) (of_ascii ''!'') \<and>
      \<not> is_spam U (spam_detector b) (content m) \<and>
      time_now env - last_response_time b < response_delay b"
  then show "event_message parse U b env m = (b, [], None)"
    by (simp add: event_message_def)
next
  assume fired: "event_message parse U b env m = (b', calls, exc) \<and> Send_response r \<in> set calls"
  from fired event_message_delay [of parse U b env m]
  show d: "response_delay b' = response_delay b" by simp
  {
    assume "exc \<noteq> None"
    with fired show "b' = b" using event_message_raised by blast
  }
  assume ok: "exc = None"
  with fired show t: "last_response_time b' = time_now env"
    using event_message_fired by blast
  assume "\<forall>(env', m')\<in>set events. time_now env' - time_now env < response_delay b"
  with t d
  have "\<forall>(env, m)\<in>set events. time_now env - last_response_time b' < response_delay b'"
    by simp
  from run_quiet [OF this] t
  show "\<forall>r'. Send_response r' \<notin> set (snd (run parse U b' events))"
    and "last_response_time (fst (run parse U b' events)) = time_now env"
    by simp_all
qed

theorem cooldown_enforced_witness:
  "\<not> echo (viewer_says (of_ascii ''hello'')) \<and>
   \<not> startswith (content (viewer_says (of_ascii ''hello''))) (of_ascii ''!'') \<and>
   \<not> is_spam ucd_excerpt (spam_detector (demo_bot\<lparr>last_response_time := 5\<rparr>))
       (content (viewer_says (of_ascii ''hello''))) \<and>
   time_now (demo_env\<lparr>time_now := 7\<rparr>) - last_response_time (demo_bot\<lparr>last_response_time := 5\<rparr>)
     < response_delay (demo_bot\<lparr>last_response_time := 5\<rparr>) \<and>
   event_message (\<lambda>_. None) ucd_excerpt (demo_bot\<lparr>last_response_time := 5\<rparr>)
     (demo_env\<lparr>time_now := 7\<rparr>) (viewer_says (of_ascii ''hello''))
     = (demo_bot\<lparr>last_response_time := 5\<rparr>, [], None) \<and>
   event_message (\<lambda>_. None) ucd_excerpt demo_bot demo_env
     (viewer_says (of_ascii ''oh hi, HELLO there''))
     = (demo_bot\<lparr>last_response_time := 5\<rparr>, [Send_response (of_ascii ''hi'')], None) \<and>
   last_response_time (demo_bot\<lparr>last_response_time := 5\<rparr>) = time_now demo_env \<and>
   (\<forall>r'. Send_response r' \<notin> set (snd (run (\<lambda>_. None) ucd_excerpt
      (demo_bot\<lparr>last_response_time := 5\<rparr>)
      [(demo_env\<lparr>time_now := 6\<rparr>, viewer_says (of_ascii ''hello'')),
       (demo_env\<lparr>time_now := 7\<rparr>, mod_says (of_ascii ''hi''))]))) \<and>
   last_response_time (fst (run (\<lambda>_. None) ucd_excerpt (demo_bot\<lparr>last_response_time := 5\<rparr>)
      [(demo_env\<lparr>time_now := 6\<rparr>, viewer_says (of_ascii ''hello'')),
       (demo_env\<lparr>time_now := 7\<rparr>, mod_says (of_ascii ''hi''))])) = 5 \<and>
   event_message (\<lambda>_. None) ucd_excerpt (demo_bot\<lparr>last_response_time := 5\<rparr>)
     (demo_env\<lparr>time_now := 8\<rparr>) (viewer_says (of_ascii ''hello''))
     = (demo_bot\<lparr>last_response_time := 8\<rparr>, [Send_response (of_ascii ''hi'')], None) \<and>
   event_message (\<lambda>_. None) ucd_excerpt demo_bot
     (demo_env\<lparr>send_raises := Some (of_ascii ''closed'')\<rparr>) (viewer_says (of_ascii ''hello''))
     = (demo_bot, [Send_response (of_ascii ''hi'')], Some (of_ascii ''closed''))"
proof -
  let ?b5 = "demo_bot\<lparr>last_response_time := 5\<rparr>"
  let ?events = "[(demo_env\<lparr>time_now := 6\<rparr>, viewer_says (of_ascii ''hello'')),
                  (demo_env\<lparr>time_now := 7\<rparr>, mod_says (of_ascii ''hi''))]"
  have pre: "\<not> echo (viewer_says (of_ascii ''hello''))"
    "\<not> startswith (content (viewer_says (of_ascii ''hello''))) (of_ascii ''!'')"
    "\<not> is_spam ucd_excerpt (spam_detector ?b5) (content (viewer_says (of_ascii ''hello'')))"
    "time_now (demo_env\<lparr>time_now := 7\<rparr>) - last_response_time ?b5 < response_delay ?b5"
    by (simp_all add: demo_defs text_defs)
  have early: "\<forall>(env', m')\<in>set ?events. time_now env' - time_now demo_env < response_delay demo_bot"
    by (simp add: demo_defs)
  have t: "time_now demo_env = 5" by (simp add: demo_defs)
  note c1 = cooldown_enforced [where m = "viewer_says (of_ascii ''hello'')" and U = ucd_excerpt
      and b = ?b5 and env = "demo_env\<lparr>time_now := 7\<rparr>" and parse = "\<lambda>_. None",
      THEN conjunct1, rule_format]
  note c2 = cooldown_enforced [where m = "viewer_says (of_ascii ''oh hi, HELLO there'')"
      and U = ucd_excerpt and b = demo_bot and env = demo_env and parse = "\<lambda>_. None"
      and b' = ?b5 and calls = "[Send_response (of_ascii ''hi'')]" and r = "of_ascii ''hi''"
      and exc = None and events = ?events, THEN conjunct2, rule_format]
  note c3 = cooldown_enforced [where m = "viewer_says (of_ascii ''hello'')"
      and U = ucd_excerpt and b = demo_bot
      and env = "demo_env\<lparr>send_raises := Some (of_ascii ''closed'')\<rparr>" and parse = "\<lambda>_. None"
      and b' = demo_bot and calls = "[Send_response (of_ascii ''hi'')]" and r = "of_ascii ''hi''"
      and exc = "Some (of_ascii ''closed'')", THEN conjunct2, rule_format]
  show ?thesis
    using pre c1 demo_hello [of "\<lambda>_. None"] demo_after [of "\<lambda>_. None"] c2 c3 early t
      demo_send_raises [of "\<lambda>_. None"]
    by simp
qed

text \<open>
  A trigger response whose send raises at time 5 does not start the cooldown: the time of
  the last response is not set, and the next \<^verbatim>\<open>hello\<close>, at time 6 with a delay of 3,
  is answered as well.
\<close>

theorem raising_send_starts_no_cooldown:
  "event_message (\<lambda>_. None) ucd_excerpt demo_bot
     (demo_env\<lparr>send_raises := Some (of_ascii ''closed'')\<rparr>) (viewer_says (of_ascii ''hello''))
     = (demo_bot, [Send_response (of_ascii ''hi'')], Some (of_ascii ''closed'')) \<and>
   last_response_time demo_bot \<noteq> time_now (demo_env\<lparr>send_raises := Some (of_ascii ''closed'')\<rparr>) \<and>
   time_now (demo_env\<lparr>time_now := 6\<rparr>)
     < time_now (demo_env\<lparr>send_raises := Some (of_ascii ''closed'')\<rparr>) + response_delay demo_bot \<and>
   snd (run (\<lambda>_. None) ucd_excerpt demo_bot
     [(demo_env\<lparr>send_raises := Some (of_ascii ''closed'')\<rparr>, viewer_says (of_ascii ''hello'')),
      (demo_env\<lparr>time_now := 6\<rparr>, viewer_says (of_ascii ''hello''))])
     = [Send_response (of_ascii ''hi''), Send_response (of_ascii ''hi'')]"
  by (simp add: demo_send_raises demo_second) (simp add: demo_defs)

end
